theory Spec2Isabelle
  imports Complex_Main "HOL-Library.AList" "HOL-Library.Sublist" "HOL-Library.Char_ord"
    "HOL-Library.List_Lexorder"
begin

section \<open>Strings, URLs and paths\<close>

text \<open>
  URLs, file-system paths and file contents are Python \<open>str\<close>/\<open>bytes\<close> values and are
  modelled as \<open>string\<close>. The string methods the crawler calls are written out below
  on character lists; \<open>lower\<close> folds the ASCII letters only.
\<close>

type_synonym url = string
type_synonym path = string

definition lower_char :: "char \<Rightarrow> char" where
  "lower_char c =
     (let n = (of_char c :: nat) in if 65 \<le> n \<and> n \<le> 90 then char_of (n + 32) else c)"

definition lower :: "string \<Rightarrow> string" where
  "lower s = map lower_char s"

definition endswith :: "string \<Rightarrow> string \<Rightarrow> bool" where
  "endswith s suf = suffix suf s"

definition startswith :: "string \<Rightarrow> string \<Rightarrow> bool" where
  "startswith s pre = prefix pre s"

text \<open>\<open>sub in s\<close> on strings: \<open>sub\<close> occurs in \<open>s\<close> as a contiguous block.\<close>

definition contains :: "string \<Rightarrow> string \<Rightarrow> bool" where
  "contains sub s = sublist sub s"

text \<open>\<open>s.lstrip("/")\<close> and \<open>s.rstrip("/")\<close>.\<close>

definition lstrip_slash :: "string \<Rightarrow> string" where
  "lstrip_slash s = dropWhile (\<lambda>c. c = CHR ''/'') s"

definition rstrip_slash :: "string \<Rightarrow> string" where
  "rstrip_slash s = rev (dropWhile (\<lambda>c. c = CHR ''/'') (rev s))"

text \<open>
  The text after the last \<open>/\<close> (all of \<open>s\<close> when there is none), and the text before
  the last \<open>/\<close> (all of \<open>s\<close> when there is none).
\<close>

definition after_last_slash :: "string \<Rightarrow> string" where
  "after_last_slash s = rev (takeWhile (\<lambda>c. c \<noteq> CHR ''/'') (rev s))"

definition before_last_slash :: "string \<Rightarrow> string" where
  "before_last_slash s =
     (if CHR ''/'' \<in> set s then rev (tl (dropWhile (\<lambda>c. c \<noteq> CHR ''/'') (rev s))) else s)"

text \<open>\<open>os.path.basename(p)\<close> on POSIX, and \<open>s.rsplit("/", 1)[0]\<close>.\<close>

definition basename :: "path \<Rightarrow> string" where
  "basename p = after_last_slash p"

definition rsplit_slash_head :: "string \<Rightarrow> string" where
  "rsplit_slash_head s = before_last_slash s"

text \<open>\<open>os.path.join(a, b)\<close> on POSIX, for two components.\<close>

definition os_path_join :: "path \<Rightarrow> path \<Rightarrow> path" where
  "os_path_join a b =
     (if startswith b ''/'' then b
      else if a = [] \<or> endswith a ''/'' then a @ b
      else a @ ''/'' @ b)"

text \<open>
  The substitution \<^verbatim>\<open>re.sub(r"[<>:/\\|?*]", "_", s)\<close>: each of the eight characters of
  the class (the backslash is character \<open>0x5C\<close>) becomes an underscore.
\<close>

definition unsafe_char :: "char \<Rightarrow> bool" where
  "unsafe_char c \<longleftrightarrow> c \<in> set (''<>:/'' @ [CHR 0x5C] @ ''|?*'')"

definition re_sub_unsafe :: "string \<Rightarrow> string" where
  "re_sub_unsafe s = map (\<lambda>c. if unsafe_char c then CHR ''_'' else c) s"

text \<open>
  The six components \<open>urllib.parse.urlparse\<close> returns. The parser itself, \<open>urljoin\<close>
  and \<open>geturl\<close> belong to the Python library, not to the repository: they are taken
  as parameters (see \<open>env\<close> below), so every general theorem holds for whatever these
  functions compute.
\<close>

record parsed_url =
  scheme :: string
  netloc :: string
  path :: string
  params :: string
  query :: string
  fragment :: string

section \<open>Collaborators, archive store and crawl state\<close>

text \<open>
  An HTTP response as the crawler reads it: \<open>status_code\<close>,
  \<open>headers.get("Content-Type", "")\<close>, the raw \<open>content\<close> and the decoded \<open>text\<close>.
\<close>

record response =
  status_code :: int
  content_type :: string
  content :: string
  body_text :: string

text \<open>
  The external collaborators. \<open>http_get u\<close> is \<open>session.get(u, timeout=30)\<close>:
  \<open>Inl exc\<close> when the call raises, \<open>Inr r\<close> when it returns response \<open>r\<close>; the web is
  taken to answer a URL the same way throughout one run. \<open>find_hrefs\<close> is
  \<open>[a["href"] for a in BeautifulSoup(html, "html.parser").find_all("a", href=True)]\<close>.
  \<open>extract_text_from_pdf\<close> is the text extractor of \<open>ocr_utils\<close>, which reads the
  file at the given path by external tools and never raises.
\<close>

type_synonym filesystem = "(path \<times> string) list"

record env =
  http_get :: "url \<Rightarrow> string + response"
  urlparse :: "url \<Rightarrow> parsed_url"
  urljoin :: "url \<Rightarrow> string \<Rightarrow> url"
  geturl :: "parsed_url \<Rightarrow> url"
  find_hrefs :: "string \<Rightarrow> string list"
  extract_text_from_pdf :: "filesystem \<Rightarrow> path \<Rightarrow> string"

text \<open>
  The archive store is the list of regular files with their contents, keyed by path
  string (a case-sensitive file system without links). Directories are implicit, so
  \<open>os.makedirs(..., exist_ok=True)\<close> changes nothing and opening a file for writing always
  succeeds; the spec leaves file-system failures out of the crawler's handling.
\<close>

definition path_exists :: "filesystem \<Rightarrow> path \<Rightarrow> bool" where
  "path_exists fs p \<longleftrightarrow> map_of fs p \<noteq> None"

definition getsize :: "filesystem \<Rightarrow> path \<Rightarrow> nat" where
  "getsize fs p = (case map_of fs p of None \<Rightarrow> 0 | Some c \<Rightarrow> length c)"

definition write_file :: "filesystem \<Rightarrow> path \<Rightarrow> string \<Rightarrow> filesystem" where
  "write_file fs p c = AList.update p c fs"

text \<open>
  What a run does to the outside world, in order: each request sent, each warning
  logged, each \<open>time.sleep(self.delay)\<close>, each call of the text extractor.
  Informational log lines are not recorded.
\<close>

datatype event =
    Get url
  | WarnFailed url string
  | WarnStatus url int
  | Sleep rat
  | Extract path

text \<open>
  The world a run acts on is the archive store and the trace of events. A crawl loop
  works on a \<open>state\<close>: the world together with the set of visited URLs
  (\<open>self._visited\<close> in \<open>scraper.py\<close>, the local \<open>visited\<close> in \<open>nav_scraper.py\<close>).
\<close>

record world =
  files :: filesystem
  events :: "event list"

record state = world +
  visited :: "url set"

section \<open>One pass of the crawl loop\<close>

text \<open>
  The PDF test and the stored file name (\<open>scraper.py\<close> lines 90-94, \<open>nav_scraper.py\<close>
  lines 112-116).
\<close>

definition is_pdf :: "response \<Rightarrow> url \<Rightarrow> bool" where
  "is_pdf r current_url \<longleftrightarrow>
     contains ''application/pdf'' (lower (content_type r)) \<or> endswith (lower current_url) ''.pdf''"

definition pdf_filename :: "env \<Rightarrow> url \<Rightarrow> string" where
  "pdf_filename E current_url =
     (let filename = re_sub_unsafe (basename (path (urlparse E current_url)))
      in if \<not> endswith (lower filename) ''.pdf'' then filename @ ''.pdf'' else filename)"

definition pdf_path_of :: "env \<Rightarrow> path \<Rightarrow> url \<Rightarrow> path" where
  "pdf_path_of E pdf_dir current_url = os_path_join pdf_dir (pdf_filename E current_url)"

text \<open>Where an HTML page is stored (\<open>scraper.py\<close> lines 105-109).\<close>

definition html_local_path :: "env \<Rightarrow> path \<Rightarrow> url \<Rightarrow> path" where
  "html_local_path E html_dir current_url =
     (let rel_path = lstrip_slash (path (urlparse E current_url));
          rel_path = (if rel_path = [] \<or> endswith rel_path ''/'' then rel_path @ ''index.html''
                      else rel_path)
      in os_path_join html_dir rel_path)"

text \<open>
  The body of the \<open>for a_tag in ...\<close> loop for one href: the list of URLs it appends to
  the queue (none or one). In the full-site crawl (\<open>scraper.py\<close> lines 117-128):
\<close>

definition scrape_link :: "env \<Rightarrow> string \<Rightarrow> url set \<Rightarrow> url \<Rightarrow> string \<Rightarrow> url list" where
  "scrape_link E base_domain vis current_url href =
     (let next_url = urljoin E current_url href;
          parsed_next = urlparse E next_url
      in if scheme parsed_next \<notin> {''http'', ''https''} then []
         else if netloc parsed_next \<noteq> base_domain then []
         else let normalised = geturl E (parsed_next\<lparr>fragment := ''''\<rparr>)
              in if normalised \<notin> vis then [normalised] else [])"

text \<open>and in a category crawl (\<open>nav_scraper.py\<close> lines 134-146):\<close>

definition category_link ::
  "env \<Rightarrow> string \<Rightarrow> string \<Rightarrow> url set \<Rightarrow> url \<Rightarrow> string \<Rightarrow> url list" where
  "category_link E base_domain base_dir vis current_url href =
     (let next_url = urljoin E current_url href;
          parsed = urlparse E next_url
      in if scheme parsed \<notin> {''http'', ''https''} then []
         else if netloc parsed \<noteq> base_domain then []
         else if startswith (path parsed) base_dir
              then let norm = geturl E (parsed\<lparr>fragment := ''''\<rparr>)
                   in if norm \<notin> vis then [norm] else []
              else [])"

text \<open>
  One pass of the \<open>while queue:\<close> loop after \<open>popleft\<close>, for the dequeued
  \<open>current_url\<close>: it returns the URLs appended to the queue and the new state. The two
  crawlers run the same statements here (\<open>scraper.py\<close> lines 75-129, \<open>nav_scraper.py\<close>
  lines 100-147) and differ only in the link filter \<open>link\<close>, which is called with the
  visited set, the current URL and one href.
\<close>

definition visit ::
  "env \<Rightarrow> path \<Rightarrow> path \<Rightarrow> rat \<Rightarrow> (url set \<Rightarrow> url \<Rightarrow> string \<Rightarrow> url list)
     \<Rightarrow> url \<Rightarrow> state \<Rightarrow> url list \<times> state" where
  "visit E pdf_dir html_dir dly link current_url st =
     (if current_url \<in> visited st then ([], st)
      else
        let st1 = st\<lparr>visited := insert current_url (visited st),
                     events := events st @ [Get current_url]\<rparr>
        in case http_get E current_url of
             Inl exc \<Rightarrow> ([], st1\<lparr>events := events st1 @ [WarnFailed current_url exc]\<rparr>)
           | Inr r \<Rightarrow>
               if status_code r \<noteq> 200
               then ([], st1\<lparr>events := events st1 @ [WarnStatus current_url (status_code r)]\<rparr>)
               else if is_pdf r current_url
               then
                 let pdf_path = pdf_path_of E pdf_dir current_url;
                     st2 = (if \<not> path_exists (files st1) pdf_path
                            then st1\<lparr>files := write_file (files st1) pdf_path (content r)\<rparr>
                            else st1)
                 in ([], st2\<lparr>events := events st2 @ [Sleep dly]\<rparr>)
               else
                 let html_text = body_text r;
                     local_path = html_local_path E html_dir current_url;
                     st2 = st1\<lparr>files := write_file (files st1) local_path html_text\<rparr>;
                     new = concat (map (link (visited st2) current_url) (find_hrefs E html_text))
                 in (new, st2\<lparr>events := events st2 @ [Sleep dly]\<rparr>))"

section \<open>The crawl loops\<close>

text \<open>
  \<open>while queue:\<close> with \<open>queue.popleft()\<close> and \<open>queue.append(...)\<close>. The queue is a
  list, head first. \<open>crawl_loop body n queue st\<close> runs the loop for at most \<open>n\<close> passes
  and returns the queue and state reached; the loop has ended when the returned queue is
  empty. \<open>body\<close> is one pass for the dequeued URL.
\<close>

fun crawl_loop ::
  "(url \<Rightarrow> state \<Rightarrow> url list \<times> state) \<Rightarrow> nat \<Rightarrow> url list \<Rightarrow> state \<Rightarrow> url list \<times> state" where
  "crawl_loop body 0 queue st = (queue, st)"
| "crawl_loop body (Suc n) [] st = ([], st)"
| "crawl_loop body (Suc n) (current_url # queue) st =
     (case body current_url st of (new, st') \<Rightarrow> crawl_loop body n (queue @ new) st')"

text \<open>
  The configuration both scraper classes hold, and the directories and timestamp files
  derived from it in \<open>__post_init__\<close> / \<open>__init__\<close>.
\<close>

record scraper =
  start_url :: url
  output_dir :: path
  delay :: rat

definition html_dir :: "scraper \<Rightarrow> path" where
  "html_dir cfg = os_path_join (output_dir cfg) ''html''"

definition pdf_dir :: "scraper \<Rightarrow> path" where
  "pdf_dir cfg = os_path_join (output_dir cfg) ''pdfs''"

definition text_dir :: "scraper \<Rightarrow> path" where
  "text_dir cfg = os_path_join (output_dir cfg) ''pdf_text''"

definition last_scrape_file :: "scraper \<Rightarrow> path" where
  "last_scrape_file cfg = os_path_join (output_dir cfg) ''last_scrape.txt''"

definition last_nav_scrape_file :: "scraper \<Rightarrow> path" where
  "last_nav_scrape_file cfg = os_path_join (output_dir cfg) ''last_nav_scrape.txt''"

text \<open>\<open>str(int(t))\<close> for the clock value \<open>t\<close>: truncation towards zero, printed in decimal.\<close>

definition py_trunc :: "rat \<Rightarrow> int" where
  "py_trunc t = (if 0 \<le> t then \<lfloor>t\<rfloor> else \<lceil>t\<rceil>)"

definition digit_char :: "nat \<Rightarrow> char" where
  "digit_char d = char_of (48 + d)"

fun str_nat :: "nat \<Rightarrow> string" where
  "str_nat n = (if n < 10 then [digit_char n] else str_nat (n div 10) @ [digit_char (n mod 10)])"

declare str_nat.simps [simp del]

definition str_int :: "int \<Rightarrow> string" where
  "str_int i = (if i < 0 then CHR ''-'' # str_nat (nat (- i)) else str_nat (nat i))"

text \<open>One pass of the full-site loop, and \<open>WorkAndIncomeScraper.scrape\<close>.\<close>

definition scrape_pass :: "env \<Rightarrow> scraper \<Rightarrow> string \<Rightarrow> url \<Rightarrow> state \<Rightarrow> url list \<times> state" where
  "scrape_pass E cfg base_domain =
     visit E (pdf_dir cfg) (html_dir cfg) (delay cfg) (scrape_link E base_domain)"

text \<open>
  \<open>scrape E cfg now fuel st\<close>: \<open>now\<close> is what \<open>time.time()\<close> returns when the loop has
  ended. The result is \<open>None\<close> when the loop has not ended within \<open>fuel\<close> passes.
\<close>

definition scrape :: "env \<Rightarrow> scraper \<Rightarrow> rat \<Rightarrow> nat \<Rightarrow> state \<Rightarrow> state option" where
  "scrape E cfg now fuel st =
     (let parsed_start = urlparse E (start_url cfg);
          base_domain = netloc parsed_start
      in case crawl_loop (scrape_pass E cfg base_domain) fuel [start_url cfg] st of
           (queue, st') \<Rightarrow>
             if queue = []
             then Some (st'\<lparr>files := write_file (files st') (last_scrape_file cfg)
                                    (str_int (py_trunc now))\<rparr>)
             else None)"

text \<open>\<open>NavScraper._crawl_category\<close>: the base directory of the category, and the crawl.\<close>

definition category_base_dir :: "string \<Rightarrow> string" where
  "category_base_dir start_path =
     (if endswith start_path ''.html'' then rsplit_slash_head start_path @ ''/''
      else rstrip_slash start_path @ ''/'')"

definition category_pass ::
  "env \<Rightarrow> scraper \<Rightarrow> string \<Rightarrow> string \<Rightarrow> url \<Rightarrow> state \<Rightarrow> url list \<times> state" where
  "category_pass E cfg base_domain base_dir =
     visit E (pdf_dir cfg) (html_dir cfg) (delay cfg) (category_link E base_domain base_dir)"

definition crawl_category :: "env \<Rightarrow> scraper \<Rightarrow> url \<Rightarrow> nat \<Rightarrow> world \<Rightarrow> world option" where
  "crawl_category E cfg category_url fuel w =
     (let parsed_start = urlparse E category_url;
          start_path = path parsed_start;
          base_dir = category_base_dir start_path;
          base_domain = netloc parsed_start
      in case crawl_loop (category_pass E cfg base_domain base_dir) fuel [category_url]
                \<lparr>files = files w, events = events w, visited = {}\<rparr> of
           (queue, st') \<Rightarrow>
             if queue = [] then Some \<lparr>files = files st', events = events st'\<rparr> else None)"

section \<open>The extraction post-pass\<close>

text \<open>
  \<open>os.walk(self.pdf_dir)\<close> with \<open>os.path.join(root, name)\<close>: the paths of the files
  below the directory, in the order of the store. \<open>os.path.relpath(p, start)\<close> for such
  a path, and the first component of \<open>os.path.splitext\<close>: the extension is cut at the
  last dot of the last path component, unless only dots precede it there.
\<close>

definition walk_files :: "filesystem \<Rightarrow> path \<Rightarrow> path list" where
  "walk_files fs d = filter (\<lambda>p. startswith p (d @ ''/'')) (map fst fs)"

definition relpath :: "path \<Rightarrow> path \<Rightarrow> path" where
  "relpath p start = drop (length start + 1) p"

definition splitext_root :: "path \<Rightarrow> path" where
  "splitext_root p =
     (let base = after_last_slash p;
          dirpart = take (length p - length base) p
      in if CHR ''.'' \<in> set base
         then let stem = rev (tl (dropWhile (\<lambda>c. c \<noteq> CHR ''.'') (rev base)))
              in if \<exists>c \<in> set stem. c \<noteq> CHR ''.'' then dirpart @ stem else p
         else p)"

definition txt_full_of :: "scraper \<Rightarrow> path \<Rightarrow> path" where
  "txt_full_of cfg pdf_path =
     (let rel_path = relpath pdf_path (pdf_dir cfg);
          txt_rel = splitext_root rel_path @ ''.txt''
      in os_path_join (text_dir cfg) txt_rel)"

text \<open>
  The body of the inner \<open>for name in files\<close> loop for the file at \<open>pdf_path\<close>
  (\<open>scraper.py\<close> lines 144-161, \<open>nav_scraper.py\<close> lines 153-165). The store holds regular
  files only, so \<open>os.path.getsize\<close> of an existing path does not raise and the two
  source functions take the same steps.
\<close>

definition extract_pdf :: "env \<Rightarrow> scraper \<Rightarrow> path \<Rightarrow> world \<Rightarrow> world" where
  "extract_pdf E cfg pdf_path w =
     (let name = basename pdf_path
      in if \<not> endswith (lower name) ''.pdf'' then w
         else
           let txt_full = txt_full_of cfg pdf_path
           in if path_exists (files w) txt_full \<and> getsize (files w) txt_full > 0 then w
              else
                let text = extract_text_from_pdf E (files w) pdf_path
                in w\<lparr>events := events w @ [Extract pdf_path],
                      files := write_file (files w) txt_full text\<rparr>)"

definition extract_all_pdfs :: "env \<Rightarrow> scraper \<Rightarrow> world \<Rightarrow> world" where
  "extract_all_pdfs E cfg w = fold (extract_pdf E cfg) (walk_files (files w) (pdf_dir cfg)) w"

section \<open>The staleness policy\<close>








section \<open>The category-scoped scrape\<close>

text \<open>
  \<open>s.split(c)\<close> for a one-character separator, and the path segments
  \<open>[seg for seg in path.split("/") if seg]\<close>.
\<close>

fun split_on :: "char \<Rightarrow> string \<Rightarrow> string list" where
  "split_on c [] = [[]]"
| "split_on c (x # xs) =
     (if x = c then [] # split_on c xs
      else (case split_on c xs of [] \<Rightarrow> [[x]] | y # ys \<Rightarrow> (x # y) # ys))"

definition segments_of :: "string \<Rightarrow> string list" where
  "segments_of p = filter (\<lambda>seg. seg \<noteq> []) (split_on CHR ''/'' p)"

text \<open>
  The body of the loop over the anchors of the navigation page (\<open>nav_scraper.py\<close> lines
  57-71): the URLs one href adds to \<open>nav_links_set\<close>. \<open>sorted(nav_links_set)\<close> lists
  the set without repetition in the order of Python strings.
\<close>

definition nav_link :: "env \<Rightarrow> url \<Rightarrow> string \<Rightarrow> url list" where
  "nav_link E start href =
     (if \<not> startswith href ''/map/'' then []
      else
        let href_parsed = urlparse E href;
            segments = segments_of (path href_parsed)
        in if length segments \<le> 3
           then (if segments = [''map'', ''index.html''] then [] else [urljoin E start href])
           else [])"

definition nav_links :: "env \<Rightarrow> url \<Rightarrow> string \<Rightarrow> url list" where
  "nav_links E start html = sort (remdups (concat (map (nav_link E start) (find_hrefs E html))))"

text \<open>
  Exceptions that leave \<open>NavScraper.scrape\<close>: whatever \<open>requests.get\<close> raised, or the
  \<open>HTTPError\<close> of \<open>raise_for_status\<close>, which \<open>requests\<close> raises for a status from 400
  to 599. An outcome is a normal return or a raised exception, each with the world as
  the call left it.
\<close>

datatype exn = RequestException string | HTTPError int

datatype outcome = Returned world | Raised exn world

definition raise_for_status :: "response \<Rightarrow> exn option" where
  "raise_for_status r =
     (if 400 \<le> status_code r \<and> status_code r < 600 then Some (HTTPError (status_code r))
      else None)"

fun crawl_categories :: "env \<Rightarrow> scraper \<Rightarrow> nat \<Rightarrow> url list \<Rightarrow> world \<Rightarrow> world option" where
  "crawl_categories E cfg fuel [] w = Some w"
| "crawl_categories E cfg fuel (link # links) w =
     (case crawl_category E cfg link fuel w of
        None \<Rightarrow> None
      | Some w' \<Rightarrow> crawl_categories E cfg fuel links w')"

text \<open>
  \<open>NavScraper.scrape\<close>. \<open>fuel\<close> bounds the passes of each category's loop; the result is
  \<open>None\<close> when some loop has not ended within it.
\<close>

definition nav_scrape :: "env \<Rightarrow> scraper \<Rightarrow> rat \<Rightarrow> nat \<Rightarrow> world \<Rightarrow> outcome option" where
  "nav_scrape E cfg now fuel w =
     (let w1 = w\<lparr>events := events w @ [Get (start_url cfg)]\<rparr>
      in case http_get E (start_url cfg) of
           Inl exc \<Rightarrow> Some (Raised (RequestException exc) w1)
         | Inr resp \<Rightarrow>
             (case raise_for_status resp of
                Some e \<Rightarrow> Some (Raised e w1)
              | None \<Rightarrow>
                  (case crawl_categories E cfg fuel
                          (nav_links E (start_url cfg) (body_text resp)) w1 of
                     None \<Rightarrow> None
                   | Some w2 \<Rightarrow>
                       let w3 = extract_all_pdfs E cfg w2
                       in Some (Returned
                            (w3\<lparr>files := write_file (files w3) (last_nav_scrape_file cfg)
                                           (str_int (py_trunc now))\<rparr>)))))"

section \<open>Crawl depth\<close>

text \<open>
  The same loop with each queue entry labelled by the crawl depth at which it was
  discovered: the start target has depth 0, and a link found on a page of depth \<open>d\<close> is
  appended with depth \<open>d + 1\<close>. The labels are bookkeeping only (see \<open>crawl_loop_d_erase\<close>);
  \<open>trace\<close> collects the dequeued entries in order, each with its depth and whether it was
  fetched (it is not when the target is already visited).
\<close>

fun crawl_loop_d ::
  "(url \<Rightarrow> state \<Rightarrow> url list \<times> state) \<Rightarrow> nat \<Rightarrow> (url \<times> nat) list \<Rightarrow> (url \<times> nat \<times> bool) list
     \<Rightarrow> state \<Rightarrow> (url \<times> nat) list \<times> (url \<times> nat \<times> bool) list \<times> state" where
  "crawl_loop_d body 0 queue trace st = (queue, trace, st)"
| "crawl_loop_d body (Suc n) [] trace st = ([], trace, st)"
| "crawl_loop_d body (Suc n) ((current_url, d) # queue) trace st =
     (case body current_url st of
        (new, st') \<Rightarrow>
          crawl_loop_d body n (queue @ map (\<lambda>u. (u, Suc d)) new)
            (trace @ [(current_url, d, current_url \<notin> visited st)]) st')"

section \<open>A fixture web\<close>

text \<open>
  A small concrete environment for running the model. The fixture server is a table from
  URL to response; a request is answered for the URL without its fragment, and a URL
  missing from the table is a connection error. A fixture page is written as its hrefs
  separated by blanks. URLs are parsed, joined and printed as \<open>urllib.parse\<close> does for
  URLs of the form \<open>scheme://netloc/path?query#fragment\<close> without parameters, with hrefs
  that are absolute URLs, absolute paths or fragments only. The fixture extractor returns
  the stored bytes of the file.
\<close>

definition urlparse_fixture :: "url \<Rightarrow> parsed_url" where
  "urlparse_fixture u =
     (let frag = drop 1 (dropWhile (\<lambda>c. c \<noteq> CHR ''#'') u);
          rest = takeWhile (\<lambda>c. c \<noteq> CHR ''#'') u;
          qry = drop 1 (dropWhile (\<lambda>c. c \<noteq> CHR ''?'') rest);
          rest = takeWhile (\<lambda>c. c \<noteq> CHR ''?'') rest
      in if contains ''://'' rest
         then let sch = takeWhile (\<lambda>c. c \<noteq> CHR '':'') rest;
                  after = drop (length sch + 3) rest
              in \<lparr>scheme = lower sch, netloc = takeWhile (\<lambda>c. c \<noteq> CHR ''/'') after,
                  path = dropWhile (\<lambda>c. c \<noteq> CHR ''/'') after, params = [],
                  query = qry, fragment = frag\<rparr>
         else \<lparr>scheme = [], netloc = [], path = rest, params = [],
               query = qry, fragment = frag\<rparr>)"

definition geturl_fixture :: "parsed_url \<Rightarrow> url" where
  "geturl_fixture p =
     (let u = (if params p \<noteq> [] then path p @ '';'' @ params p else path p);
          u = (if netloc p \<noteq> [] then ''//'' @ netloc p @ u else u);
          u = (if scheme p \<noteq> [] then scheme p @ '':'' @ u else u);
          u = (if query p \<noteq> [] then u @ ''?'' @ query p else u)
      in if fragment p \<noteq> [] then u @ ''#'' @ fragment p else u)"

definition urljoin_fixture :: "url \<Rightarrow> string \<Rightarrow> url" where
  "urljoin_fixture base href =
     (let b = urlparse_fixture base; h = urlparse_fixture href
      in if href = [] then base
         else if scheme h \<noteq> [] then geturl_fixture h
         else if startswith href ''/''
         then geturl_fixture (h\<lparr>scheme := scheme b, netloc := netloc b\<rparr>)
         else if path h = [] \<and> query h = []
         then geturl_fixture (b\<lparr>fragment := fragment h\<rparr>)
         else geturl_fixture (h\<lparr>scheme := scheme b, netloc := netloc b,
                                 path := before_last_slash (path b) @ ''/'' @ path h\<rparr>))"

definition fixture :: "(url \<times> response) list \<Rightarrow> env" where
  "fixture table =
     \<lparr>http_get = (\<lambda>u. case map_of table (takeWhile (\<lambda>c. c \<noteq> CHR ''#'') u) of
                        None \<Rightarrow> Inl ''ConnectionError''
                      | Some r \<Rightarrow> Inr r),
      urlparse = urlparse_fixture,
      urljoin = urljoin_fixture,
      geturl = geturl_fixture,
      find_hrefs = (\<lambda>html. filter (\<lambda>h. h \<noteq> []) (split_on CHR '' '' html)),
      extract_text_from_pdf = (\<lambda>fs p. case map_of fs p of None \<Rightarrow> [] | Some c \<Rightarrow> c)\<rparr>"

definition html_page :: "string \<Rightarrow> response" where
  "html_page hrefs =
     \<lparr>status_code = 200, content_type = ''text/html; charset=utf-8'', content = hrefs,
      body_text = hrefs\<rparr>"

definition pdf_doc :: "string \<Rightarrow> response" where
  "pdf_doc bytes =
     \<lparr>status_code = 200, content_type = ''application/pdf'', content = bytes, body_text = bytes\<rparr>"

definition error_page :: "int \<Rightarrow> response" where
  "error_page code = \<lparr>status_code = code, content_type = ''text/html'', content = [], body_text = []\<rparr>"

definition fresh :: state where
  "fresh = \<lparr>files = [], events = [], visited = {}\<rparr>"

definition fresh_world :: world where
  "fresh_world = \<lparr>files = [], events = []\<rparr>"

definition site :: "url \<Rightarrow> scraper" where
  "site start = \<lparr>start_url = start, output_dir = ''data'', delay = 3 / 10\<rparr>"

text \<open>The requests a trace holds, in order.\<close>

definition fetched :: "event list \<Rightarrow> url list" where
  "fetched evs = concat (map (\<lambda>e. case e of Get u \<Rightarrow> [u] | _ \<Rightarrow> []) evs)"

text \<open>Fixture: a PDF on the server, and a store that already holds a file of its name.\<close>

definition pdf_table :: "(url \<times> response) list" where
  "pdf_table = [(''https://x/docs/b.pdf'', pdf_doc ''%PDF-new'')]"

definition stored :: state where
  "stored = \<lparr>files = [(''data/pdfs/b.pdf'', ''%PDF-old'')], events = [], visited = {}\<rparr>"

text \<open>
  Fixture: page \<open>A\<close> links to \<open>B\<close>, \<open>C\<close> and \<open>D\<close>; \<open>B\<close> answers 404, \<open>C\<close> is not
  on the server, \<open>D\<close> is an empty page.
\<close>

definition fail_table :: "(url \<times> response) list" where
  "fail_table = [(''https://x/A'', html_page ''https://x/B https://x/C https://x/D''),
     (''https://x/B'', error_page 404),
     (''https://x/D'', html_page '''')]"



text \<open>
  The warning a pass logs when the fetch of \<open>u\<close> fails (\<open>scraper.py\<close> lines 80-87):
  the request raised, or the status is not 200. \<open>None\<close> when the fetch succeeds.
\<close>

definition fetch_failure :: "env \<Rightarrow> url \<Rightarrow> event option" where
  "fetch_failure E u =
     (case http_get E u of
        Inl exc \<Rightarrow> Some (WarnFailed u exc)
      | Inr r \<Rightarrow> if status_code r \<noteq> 200 then Some (WarnStatus u (status_code r)) else None)"

text \<open>Fixture: a navigation page that answers 404.\<close>

definition nav_down_table :: "(url \<times> response) list" where
  "nav_down_table = [(''https://x/map/index.html'', error_page 404)]"


text \<open>Fixture: the page graph \<open>A \<rightarrow> {B, C}\<close>, \<open>B \<rightarrow> {D}\<close>, \<open>C \<rightarrow> {}\<close>.\<close>

definition bfs_table :: "(url \<times> response) list" where
  "bfs_table = [(''https://x/A'', html_page ''https://x/B https://x/C''),
     (''https://x/B'', html_page ''https://x/D''),
     (''https://x/C'', html_page ''''),
     (''https://x/D'', html_page '''')]"

text \<open>
  Fixture: a page reached under a start URL with a fragment, which links to itself
  under another fragment; and a navigation page whose category link carries a fragment.
\<close>

definition frag_table :: "(url \<times> response) list" where
  "frag_table = [(''https://x/y'', html_page ''https://x/y#section2'')]"

definition nav_frag_table :: "(url \<times> response) list" where
  "nav_frag_table = [(''https://x/map/index.html'', html_page ''/map/a/index.html#top''),
     (''https://x/map/a/index.html'', html_page ''#content'')]"

text \<open>
  Two tests the extraction pass makes, named for the statements below: the file name
  ends in \<open>.pdf\<close> whatever its case, and a text file exists with size greater than zero.
\<close>

definition pdf_name :: "path \<Rightarrow> bool" where
  "pdf_name p \<longleftrightarrow> endswith (lower (basename p)) ''.pdf''"

definition has_text :: "filesystem \<Rightarrow> path \<Rightarrow> bool" where
  "has_text fs t \<longleftrightarrow> path_exists fs t \<and> getsize fs t > 0"

text \<open>
  Fixture: a store with two PDFs; the text of the first has been extracted, the text
  file of the second is empty.
\<close>

definition extract_store :: world where
  "extract_store =
     \<lparr>files = [(''data/pdfs/a.pdf'', ''%PDF-a''), (''data/pdfs/b.pdf'', ''%PDF-b''),
               (''data/pdf_text/a.txt'', ''text of a''), (''data/pdf_text/b.txt'', '''')],
      events = []\<rparr>"

section \<open>Properties of one pass\<close>

text \<open>What one pass does, branch by branch.\<close>

lemma visit_seen: "u \<in> visited st \<Longrightarrow> visit E pdfs htmls dly link u st = ([], st)"
  by (simp add: visit_def)

lemma visit_raised:
  "u \<notin> visited st \<Longrightarrow> http_get E u = Inl exc \<Longrightarrow>
   visit E pdfs htmls dly link u st =
     ([], st\<lparr>visited := insert u (visited st), events := events st @ [Get u, WarnFailed u exc]\<rparr>)"
  by (simp add: visit_def)

lemma visit_status:
  "u \<notin> visited st \<Longrightarrow> http_get E u = Inr r \<Longrightarrow> status_code r \<noteq> 200 \<Longrightarrow>
   visit E pdfs htmls dly link u st =
     ([], st\<lparr>visited := insert u (visited st),
             events := events st @ [Get u, WarnStatus u (status_code r)]\<rparr>)"
  by (simp add: visit_def)

lemma visit_pdf:
  "u \<notin> visited st \<Longrightarrow> http_get E u = Inr r \<Longrightarrow> status_code r = 200 \<Longrightarrow> is_pdf r u \<Longrightarrow>
   visit E pdfs htmls dly link u st =
     ([], st\<lparr>visited := insert u (visited st),
             files := (if path_exists (files st) (pdf_path_of E pdfs u) then files st
                       else write_file (files st) (pdf_path_of E pdfs u) (content r)),
             events := events st @ [Get u, Sleep dly]\<rparr>)"
  by (simp add: visit_def Let_def)

lemma visit_html:
  "u \<notin> visited st \<Longrightarrow> http_get E u = Inr r \<Longrightarrow> status_code r = 200 \<Longrightarrow> \<not> is_pdf r u \<Longrightarrow>
   visit E pdfs htmls dly link u st =
     (concat (map (link (insert u (visited st)) u) (find_hrefs E (body_text r))),
      st\<lparr>visited := insert u (visited st),
         files := write_file (files st) (html_local_path E htmls u) (body_text r),
         events := events st @ [Get u, Sleep dly]\<rparr>)"
  by (simp add: visit_def Let_def)

lemma visit_events:
  "u \<notin> visited st \<Longrightarrow>
   events (snd (visit E pdfs htmls dly link u st)) =
     events st @
       (case http_get E u of
          Inl exc \<Rightarrow> [Get u, WarnFailed u exc]
        | Inr r \<Rightarrow> if status_code r = 200 then [Get u, Sleep dly]
                   else [Get u, WarnStatus u (status_code r)])"
  by (simp add: visit_def Let_def split: sum.split)

lemma map_of_write_file: "map_of (write_file fs p c) = (map_of fs)(p \<mapsto> c)"
  by (simp add: write_file_def update_conv')


section \<open>Stored PDFs are not overwritten\<close>

text \<open>
  Claim C4. When a pass of either crawl loop handles a PDF response (status 200, PDF by
  content type or by URL suffix), the archive store afterwards is the store before if a
  file already exists at the PDF's path under the pdfs root, and otherwise the store
  before with the response body written at that path. So an existing file is left as it
  is, and no other file is touched.
\<close>

theorem pdf_written_only_if_absent:
  assumes "current_url \<notin> visited st" and "http_get E current_url = Inr r"
    and "status_code r = 200" and "is_pdf r current_url"
  shows "files (snd (scrape_pass E cfg base_domain current_url st)) =
           (if path_exists (files st) (pdf_path_of E (pdf_dir cfg) current_url) then files st
            else write_file (files st) (pdf_path_of E (pdf_dir cfg) current_url) (content r))
       \<and> files (snd (category_pass E cfg base_domain base_dir current_url st)) =
           (if path_exists (files st) (pdf_path_of E (pdf_dir cfg) current_url) then files st
            else write_file (files st) (pdf_path_of E (pdf_dir cfg) current_url) (content r))"
  using assms by (simp add: scrape_pass_def category_pass_def visit_pdf)

theorem pdf_written_only_if_absent_witness:
  "files (snd (scrape_pass (fixture pdf_table) (site ''https://x/'') ''x''
                 ''https://x/docs/b.pdf'' stored))
     = [(''data/pdfs/b.pdf'', ''%PDF-old'')]
   \<and> files (snd (category_pass (fixture pdf_table) (site ''https://x/'') ''x'' ''/docs/''
                   ''https://x/docs/b.pdf'' fresh))
     = [(''data/pdfs/b.pdf'', ''%PDF-new'')]"
proof -
  let ?E = "fixture pdf_table" and ?u = "''https://x/docs/b.pdf''"
  have g: "http_get ?E ?u = Inr (pdf_doc ''%PDF-new'')" by code_simp
  have s: "status_code (pdf_doc ''%PDF-new'') = 200" by code_simp
  have p: "is_pdf (pdf_doc ''%PDF-new'') ?u" by code_simp
  have v1: "?u \<notin> visited stored" by code_simp
  have v2: "?u \<notin> visited fresh" by code_simp
  have "files (snd (scrape_pass ?E (site ''https://x/'') ''x'' ?u stored)) =
          (if path_exists (files stored) (pdf_path_of ?E (pdf_dir (site ''https://x/'')) ?u)
           then files stored
           else write_file (files stored) (pdf_path_of ?E (pdf_dir (site ''https://x/'')) ?u)
                  (content (pdf_doc ''%PDF-new'')))"
    using pdf_written_only_if_absent[OF v1 g s p] by (rule conjunct1)
  also have "\<dots> = [(''data/pdfs/b.pdf'', ''%PDF-old'')]" by code_simp
  finally have a: "files (snd (scrape_pass ?E (site ''https://x/'') ''x'' ?u stored)) =
     [(''data/pdfs/b.pdf'', ''%PDF-old'')]" .
  have "files (snd (category_pass ?E (site ''https://x/'') ''x'' ''/docs/'' ?u fresh)) =
          (if path_exists (files fresh) (pdf_path_of ?E (pdf_dir (site ''https://x/'')) ?u)
           then files fresh
           else write_file (files fresh) (pdf_path_of ?E (pdf_dir (site ''https://x/'')) ?u)
                  (content (pdf_doc ''%PDF-new'')))"
    using pdf_written_only_if_absent[OF v2 g s p] by (rule conjunct2)
  also have "\<dots> = [(''data/pdfs/b.pdf'', ''%PDF-new'')]" by code_simp
  finally show ?thesis using a by simp
qed

section \<open>The delay between requests\<close>

text \<open>
  Claim C5 says that the delay follows every fetch, a failed one included. The loop
  leaves a failed fetch by \<open>continue\<close> before it reaches \<open>time.sleep\<close>. In the run below
  page \<open>A\<close> is fetched and followed by the delay, \<open>B\<close> answers 404 and \<open>C\<close> cannot be
  reached: the request for \<open>C\<close> follows the warning for \<open>B\<close>, and the request for \<open>D\<close>
  follows the warning for \<open>C\<close>, with no delay in between.
\<close>

theorem no_delay_after_failed_fetch:
  "map_option events (scrape (fixture fail_table) (site ''https://x/A'') 0 5 fresh) =
     Some [Get ''https://x/A'', Sleep (3 / 10),
           Get ''https://x/B'', WarnStatus ''https://x/B'' 404,
           Get ''https://x/C'', WarnFailed ''https://x/C'' ''ConnectionError'',
           Get ''https://x/D'', Sleep (3 / 10)]"
  by code_simp

text \<open>
  What the loop does in general: a pass for a target not yet visited sends one request;
  if the response has status 200 (PDF branch or HTML branch alike) the pass ends with
  exactly one delay of the configured length, and if the fetch fails (the request
  raises, or the status is not 200) the pass logs one warning and applies no delay.
\<close>

theorem delay_after_successful_fetch:
  assumes "current_url \<notin> visited st"
  shows "events (snd (scrape_pass E cfg base_domain current_url st)) =
     events st @
       (case http_get E current_url of
          Inl exc \<Rightarrow> [Get current_url, WarnFailed current_url exc]
        | Inr r \<Rightarrow> if status_code r = 200 then [Get current_url, Sleep (delay cfg)]
                   else [Get current_url, WarnStatus current_url (status_code r)])"
  using assms by (simp add: scrape_pass_def visit_events)

theorem delay_after_successful_fetch_witness:
  "events (snd (scrape_pass (fixture fail_table) (site ''https://x/A'') ''x'' ''https://x/A'' fresh))
     = [Get ''https://x/A'', Sleep (3 / 10)]
   \<and> events (snd (scrape_pass (fixture fail_table) (site ''https://x/A'') ''x'' ''https://x/B'' fresh))
     = [Get ''https://x/B'', WarnStatus ''https://x/B'' 404]"
proof -
  let ?E = "fixture fail_table" and ?c = "site ''https://x/A''"
  have v1: "''https://x/A'' \<notin> visited fresh" and v2: "''https://x/B'' \<notin> visited fresh"
    by code_simp+
  note delay_after_successful_fetch[OF v1, of ?E ?c "''x''"]
  also have "events fresh @
       (case http_get ?E ''https://x/A'' of
          Inl exc \<Rightarrow> [Get ''https://x/A'', WarnFailed ''https://x/A'' exc]
        | Inr r \<Rightarrow> if status_code r = 200 then [Get ''https://x/A'', Sleep (delay ?c)]
                   else [Get ''https://x/A'', WarnStatus ''https://x/A'' (status_code r)])
     = [Get ''https://x/A'', Sleep (3 / 10)]" by code_simp
  finally have a: "events (snd (scrape_pass ?E ?c ''x'' ''https://x/A'' fresh))
     = [Get ''https://x/A'', Sleep (3 / 10)]" .
  note delay_after_successful_fetch[OF v2, of ?E ?c "''x''"]
  also have "events fresh @
       (case http_get ?E ''https://x/B'' of
          Inl exc \<Rightarrow> [Get ''https://x/B'', WarnFailed ''https://x/B'' exc]
        | Inr r \<Rightarrow> if status_code r = 200 then [Get ''https://x/B'', Sleep (delay ?c)]
                   else [Get ''https://x/B'', WarnStatus ''https://x/B'' (status_code r)])
     = [Get ''https://x/B'', WarnStatus ''https://x/B'' 404]" by code_simp
  finally show ?thesis using a by simp
qed

section \<open>Two PDFs of one basename\<close>



section \<open>The staleness policy reads what a run writes\<close>












section \<open>The scope rule\<close>





section \<open>Fetch failures\<close>

text \<open>
  Claim C9, as stated, fails for the category-scoped scrape: its first request, for the
  navigation page, is not guarded. A 404 answer raises \<open>HTTPError\<close> out of
  \<open>NavScraper.scrape\<close>, and so does a connection error.
\<close>

theorem nav_scrape_raises_counterexample:
  "nav_scrape (fixture nav_down_table) (site ''https://x/map/index.html'') 0 5 fresh_world
     = Some (Raised (HTTPError 404) \<lparr>files = [], events = [Get ''https://x/map/index.html'']\<rparr>)
   \<and> nav_scrape (fixture []) (site ''https://x/map/index.html'') 0 5 fresh_world
     = Some (Raised (RequestException ''ConnectionError'')
              \<lparr>files = [], events = [Get ''https://x/map/index.html'']\<rparr>)"
  by code_simp

text \<open>
  Claim C9, amended. In a crawl loop (full-site or category) a fetch failure, network
  error or non-200 status, is handled inside the pass: one warning is logged, nothing is
  stored or enqueued, the target stays marked visited, and the loop goes on with the rest
  of the queue; a later pass for the same target does nothing, so it is not retried. The
  category-scoped scrape raises exactly when its request for the navigation page raises
  or is answered with a status from 400 to 599.
\<close>

theorem fetch_failure_is_skipped:
  assumes "current_url \<notin> visited st" and "fetch_failure E current_url = Some warning"
  shows "visit E pdfs htmls dly link current_url st =
           ([], st\<lparr>visited := insert current_url (visited st),
                   events := events st @ [Get current_url, warning]\<rparr>)
       \<and> crawl_loop (visit E pdfs htmls dly link) (Suc n) (current_url # queue) st =
           crawl_loop (visit E pdfs htmls dly link) n queue
             (st\<lparr>visited := insert current_url (visited st),
                  events := events st @ [Get current_url, warning]\<rparr>)
       \<and> (\<forall>st'. current_url \<in> visited st' \<longrightarrow>
              visit E pdfs htmls dly link current_url st' = ([], st'))
       \<and> ((\<exists>e w'. nav_scrape E cfg now fuel w = Some (Raised e w')) \<longleftrightarrow>
            (case http_get E (start_url cfg) of
               Inl exc \<Rightarrow> True
             | Inr r \<Rightarrow> 400 \<le> status_code r \<and> status_code r < 600))"
proof -
  have v: "visit E pdfs htmls dly link current_url st =
           ([], st\<lparr>visited := insert current_url (visited st),
                   events := events st @ [Get current_url, warning]\<rparr>)"
    using assms
    by (auto simp: fetch_failure_def visit_raised visit_status split: sum.splits if_splits)
  have nav: "(\<exists>e w'. nav_scrape E cfg now fuel w = Some (Raised e w')) \<longleftrightarrow>
            (case http_get E (start_url cfg) of
               Inl exc \<Rightarrow> True
             | Inr r \<Rightarrow> 400 \<le> status_code r \<and> status_code r < 600)"
    by (auto simp: nav_scrape_def Let_def raise_for_status_def split: sum.splits option.splits)
  show ?thesis using v nav by (simp add: visit_seen)
qed

theorem fetch_failure_is_skipped_witness:
  "visit (fixture fail_table) ''data/pdfs'' ''data/html'' (3 / 10)
       (scrape_link (fixture fail_table) ''x'') ''https://x/B'' fresh =
     ([], \<lparr>files = [], events = [Get ''https://x/B'', WarnStatus ''https://x/B'' 404],
           visited = {''https://x/B''}\<rparr>)
   \<and> (\<exists>e w'. nav_scrape (fixture fail_table) (site ''https://x/B'') 0 5 fresh_world
                 = Some (Raised e w'))"
proof -
  let ?E = "fixture fail_table" and ?u = "''https://x/B''"
  have v: "?u \<notin> visited fresh" by code_simp
  have f: "fetch_failure ?E ?u = Some (WarnStatus ?u 404)" by code_simp
  have n: "(case http_get ?E (start_url (site ?u)) of
               Inl exc \<Rightarrow> True
             | Inr r \<Rightarrow> 400 \<le> status_code r \<and> status_code r < 600)" by code_simp
  from fetch_failure_is_skipped[OF v f, where pdfs = "''data/pdfs''" and htmls = "''data/html''"
         and dly = "3 / 10" and link = "scrape_link ?E ''x''" and cfg = "site ?u" and now = 0
         and fuel = 5 and w = fresh_world] n
  show ?thesis by (simp add: fresh_def)
qed

section \<open>The queue and the visited set\<close>

text \<open>
  What a pass does to the visited set and to the list of requests, and what the loop
  keeps: the requests sent are all different and each is marked visited.
\<close>

lemma fetched_append: "fetched (xs @ ys) = fetched xs @ fetched ys"
  by (simp add: fetched_def)

lemma fetched_simps:
  "fetched [] = []" "fetched (Get u # evs) = u # fetched evs"
  "fetched (WarnFailed u x # evs) = fetched evs" "fetched (WarnStatus u i # evs) = fetched evs"
  "fetched (Sleep d # evs) = fetched evs" "fetched (Extract p # evs) = fetched evs"
  by (simp_all add: fetched_def)


lemma visit_fetched:
  "fetched (events (snd (visit E pdfs htmls dly link u st))) =
     fetched (events st) @ (if u \<in> visited st then [] else [u])"
  by (auto simp: visit_events visit_seen fetched_append fetched_simps split: sum.split)







section \<open>Breadth-first order\<close>

text \<open>
  The depth labels do not change what the loop does; the depths of the dequeued entries
  followed by those still queued are in ascending order; and the targets fetched are the
  requests of the trace.
\<close>

lemma crawl_loop_d_erase:
  "crawl_loop_d body n dq tr st = (dq', tr', st') \<Longrightarrow>
   crawl_loop body n (map fst dq) st = (map fst dq', st')"
proof (induction n arbitrary: dq tr st)
  case 0
  then show ?case by simp
next
  case (Suc n)
  show ?case
  proof (cases dq)
    case Nil
    with Suc.prems show ?thesis by simp
  next
    case (Cons e q)
    obtain u d where e: "e = (u, d)" by (cases e)
    obtain new st1 where b: "body u st = (new, st1)" by force
    from Suc.prems Cons e b
    have "crawl_loop_d body n (q @ map (\<lambda>v. (v, Suc d)) new)
            (tr @ [(u, d, u \<notin> visited st)]) st1 = (dq', tr', st')" by simp
    from Suc.IH[OF this] show ?thesis using Cons e b by (simp add: comp_def)
  qed
qed

lemma sorted_append_replicate:
  "sorted xs \<Longrightarrow> \<forall>a \<in> set xs. a \<le> k \<Longrightarrow> sorted (xs @ replicate m (k :: nat))"
  by (auto simp: sorted_append)

lemma crawl_loop_d_sorted:
  assumes "sorted (map (\<lambda>e. fst (snd e)) tr @ map snd dq)"
    and "\<forall>x \<in> set dq. snd x \<le> Suc (snd (hd dq))"
    and "crawl_loop_d body n dq tr st = (dq', tr', st')"
  shows "sorted (map (\<lambda>e. fst (snd e)) tr' @ map snd dq')"
  using assms
proof (induction n arbitrary: dq tr st)
  case 0
  then show ?case by simp
next
  case (Suc n)
  show ?case
  proof (cases dq)
    case Nil
    with Suc.prems show ?thesis by simp
  next
    case (Cons e q)
    obtain u d where e: "e = (u, d)" by (cases e)
    obtain new st1 where b: "body u st = (new, st1)" by force
    let ?q = "q @ map (\<lambda>v. (v, Suc d)) new" and ?tr = "tr @ [(u, d, u \<notin> visited st)]"
    from Suc.prems(3) Cons e b
    have run: "crawl_loop_d body n ?q ?tr st1 = (dq', tr', st')" by simp
    have s0: "sorted (map (\<lambda>e. fst (snd e)) tr @ d # map snd q)"
      using Suc.prems(1) Cons e by simp
    have le: "\<forall>x \<in> set q. snd x \<le> Suc d" using Suc.prems(2) Cons e by simp
    have ge: "\<forall>x \<in> set q. d \<le> snd x" using s0 by (auto simp: sorted_append)
    have trle: "\<forall>x \<in> set tr. fst (snd x) \<le> d" using s0 by (auto simp: sorted_append)
    let ?A = "map (\<lambda>e. fst (snd e)) tr @ d # map snd q"
    have allA: "\<forall>a \<in> set ?A. a \<le> Suc d" using trle le by auto
    have eq: "map (\<lambda>e. fst (snd e)) ?tr @ map snd ?q = ?A @ replicate (length new) (Suc d)"
      by (simp add: comp_def map_replicate_const)
    have "sorted (?A @ replicate (length new) (Suc d))"
      using s0 allA by (rule sorted_append_replicate)
    then have 1: "sorted (map (\<lambda>e. fst (snd e)) ?tr @ map snd ?q)" by (simp only: eq)
    have 2: "\<forall>x \<in> set ?q. snd x \<le> Suc (snd (hd ?q))"
    proof (cases q)
      case Nil
      then show ?thesis by (cases new) auto
    next
      case (Cons y ys)
      then have "d \<le> snd (hd ?q)" using ge by simp
      then show ?thesis using le by auto
    qed
    from Suc.IH[OF 1 2 run] show ?thesis .
  qed
qed

lemma crawl_loop_d_fetched:
  assumes "fetched (events st) = pre @ map fst (filter (\<lambda>e. snd (snd e)) tr)"
    and "crawl_loop_d (visit E pdfs htmls dly link) n dq tr st = (dq', tr', st')"
  shows "fetched (events st') = pre @ map fst (filter (\<lambda>e. snd (snd e)) tr')"
  using assms
proof (induction n arbitrary: dq tr st)
  case 0
  then show ?case by simp
next
  case (Suc n)
  show ?case
  proof (cases dq)
    case Nil
    with Suc.prems show ?thesis by simp
  next
    case (Cons e q)
    obtain u d where e: "e = (u, d)" by (cases e)
    obtain new st1 where b: "visit E pdfs htmls dly link u st = (new, st1)" by force
    let ?q = "q @ map (\<lambda>v. (v, Suc d)) new" and ?tr = "tr @ [(u, d, u \<notin> visited st)]"
    from Suc.prems(2) Cons e b
    have run: "crawl_loop_d (visit E pdfs htmls dly link) n ?q ?tr st1 = (dq', tr', st')" by simp
    have "fetched (events st1) = fetched (events st) @ (if u \<in> visited st then [] else [u])"
      using visit_fetched[of E pdfs htmls dly link u st] b by simp
    then have "fetched (events st1) = pre @ map fst (filter (\<lambda>e. snd (snd e)) ?tr)"
      using Suc.prems(1) by simp
    from Suc.IH[OF this run] show ?thesis .
  qed
qed

text \<open>
  Claim C1. Run the full-site loop from the start target for any number of passes, with
  the depth labels. Then the labelled run is the run of the loop itself; the requests
  sent are exactly the dequeued entries that were not yet visited, in that order; and
  the depths of the dequeued entries, followed by the depths of the entries still
  queued, never decrease: every target discovered at depth \<open>d\<close> is dequeued (and, if not
  yet visited, fetched) before any target discovered at depth \<open>d + 1\<close>. On the page graph
  \<open>A \<rightarrow> {B, C}\<close>, \<open>B \<rightarrow> {D}\<close>, \<open>C \<rightarrow> {}\<close> the crawl from \<open>A\<close> ends and has fetched
  \<open>A\<close>, \<open>B\<close>, \<open>C\<close>, \<open>D\<close> in this order.
\<close>

theorem breadth_first_order:
  "(case crawl_loop_d (scrape_pass E cfg base_domain) n [(start_url cfg, 0)] [] st of
      (dqueue, trace, st') \<Rightarrow>
        crawl_loop (scrape_pass E cfg base_domain) n [start_url cfg] st = (map fst dqueue, st')
      \<and> fetched (events st') = fetched (events st) @ map fst (filter (\<lambda>e. snd (snd e)) trace)
      \<and> sorted (map (\<lambda>e. fst (snd e)) trace @ map snd dqueue))
   \<and> map_option (\<lambda>s. fetched (events s))
        (scrape (fixture bfs_table) (site ''https://x/A'') 0 10 fresh)
      = Some [''https://x/A'', ''https://x/B'', ''https://x/C'', ''https://x/D'']"
proof -
  obtain dq' tr' st' where r:
    "crawl_loop_d (scrape_pass E cfg base_domain) n [(start_url cfg, 0)] [] st = (dq', tr', st')"
    by (cases "crawl_loop_d (scrape_pass E cfg base_domain) n [(start_url cfg, 0)] [] st") auto
  have a: "crawl_loop (scrape_pass E cfg base_domain) n [start_url cfg] st = (map fst dq', st')"
    using crawl_loop_d_erase[OF r] by simp
  have b: "fetched (events st') = fetched (events st) @ map fst (filter (\<lambda>e. snd (snd e)) tr')"
    using crawl_loop_d_fetched[of st "fetched (events st)" "[]"] r
    by (simp add: scrape_pass_def)
  have c: "sorted (map (\<lambda>e. fst (snd e)) tr' @ map snd dq')"
    using crawl_loop_d_sorted[of "[]" "[(start_url cfg, 0)]", OF _ _ r] by simp
  have d: "map_option (\<lambda>s. fetched (events s))
        (scrape (fixture bfs_table) (site ''https://x/A'') 0 10 fresh)
      = Some [''https://x/A'', ''https://x/B'', ''https://x/C'', ''https://x/D'']"
    by code_simp
  show ?thesis using a b c d by (simp add: r)
qed

text \<open>
  On that page graph the dequeued entries carry the depths 0, 1, 1, 2.
\<close>

theorem breadth_first_order_witness:
  "crawl_loop_d (scrape_pass (fixture bfs_table) (site ''https://x/A'') ''x'') 10
       [(''https://x/A'', 0)] [] fresh
     = ([], [(''https://x/A'', 0, True), (''https://x/B'', 1, True), (''https://x/C'', 1, True),
             (''https://x/D'', 2, True)],
        snd (crawl_loop (scrape_pass (fixture bfs_table) (site ''https://x/A'') ''x'') 10
               [''https://x/A''] fresh))
   \<and> sorted [0, 1, 1, 2 :: nat]"
proof -
  let ?b = "scrape_pass (fixture bfs_table) (site ''https://x/A'') ''x''"
  have s: "start_url (site ''https://x/A'') = ''https://x/A''" by code_simp
  have q: "fst (crawl_loop_d ?b 10 [(''https://x/A'', 0)] [] fresh) = []"
    and t: "fst (snd (crawl_loop_d ?b 10 [(''https://x/A'', 0)] [] fresh))
      = [(''https://x/A'', 0, True), (''https://x/B'', 1, True), (''https://x/C'', 1, True),
             (''https://x/D'', 2, True)]"
    by code_simp+
  from breadth_first_order[of "fixture bfs_table" "site ''https://x/A''" "''x''" 10 fresh] q t
  show ?thesis by (auto simp: s split: prod.splits)
qed

section \<open>Fragments\<close>

text \<open>
  Claim C3 says that two URLs differing only in their fragment are one target, fetched at
  most once per run. Every discovered link is stripped of its fragment before it is
  tested and queued, but the first entry of the queue is not: the start URL of the
  full-site crawl, and each category URL of the category-scoped scrape, is queued and
  marked visited with its fragment. Started at \<open>https://x/y#section1\<close>, on a page that
  links to \<open>https://x/y#section2\<close>, the full-site crawl requests the page twice, once as
  \<open>https://x/y#section1\<close> and once as \<open>https://x/y\<close>. A navigation page whose category
  link is \<open>/map/a/index.html#top\<close> makes the category crawl request that page twice in
  the same way.
\<close>

theorem fragment_of_start_url_kept:
  "map_option (\<lambda>s. fetched (events s))
      (scrape (fixture frag_table) (site ''https://x/y#section1'') 0 5 fresh)
     = Some [''https://x/y#section1'', ''https://x/y'']
   \<and> (case nav_scrape (fixture nav_frag_table) (site ''https://x/map/index.html'') 0 5 fresh_world of
         Some (Returned w) \<Rightarrow> fetched (events w) | _ \<Rightarrow> [])
     = [''https://x/map/index.html'', ''https://x/map/a/index.html#top'',
        ''https://x/map/a/index.html'']"
  by code_simp

section \<open>Extraction is incremental\<close>

text \<open>
  One step of the pass, and what the whole pass keeps: a text file that is not empty is
  never written, and the calls of the extractor are appended to the trace.
\<close>

lemma extract_pdf_step:
  "extract_pdf E cfg p w =
     (if \<not> pdf_name p then w
      else if has_text (files w) (txt_full_of cfg p) then w
      else w\<lparr>events := events w @ [Extract p],
             files := write_file (files w) (txt_full_of cfg p)
                        (extract_text_from_pdf E (files w) p)\<rparr>)"
  by (simp add: extract_pdf_def Let_def pdf_name_def has_text_def)

lemma has_text_map_of: "has_text fs t \<longleftrightarrow> (\<exists>c. map_of fs t = Some c \<and> c \<noteq> [])"
  by (auto simp: has_text_def path_exists_def getsize_def split: option.splits)

lemma extract_pdf_other:
  "\<not> pdf_name p \<or> t \<noteq> txt_full_of cfg p \<Longrightarrow>
   map_of (files (extract_pdf E cfg p w)) t = map_of (files w) t"
  by (auto simp: extract_pdf_step map_of_write_file)

lemma extract_pdf_keeps:
  "has_text (files w) t \<Longrightarrow> map_of (files (extract_pdf E cfg p w)) t = map_of (files w) t"
  by (auto simp: extract_pdf_step map_of_write_file)

lemma extract_fold_keeps:
  "has_text (files w) t \<Longrightarrow>
   map_of (files (fold (extract_pdf E cfg) ps w)) t = map_of (files w) t"
proof (induction ps arbitrary: w)
  case Nil
  then show ?case by simp
next
  case (Cons x xs)
  have k: "map_of (files (extract_pdf E cfg x w)) t = map_of (files w) t"
    using Cons.prems by (rule extract_pdf_keeps)
  then have "has_text (files (extract_pdf E cfg x w)) t"
    using Cons.prems by (simp add: has_text_map_of)
  from Cons.IH[OF this] k show ?case by simp
qed

lemma extract_pdf_events:
  "events (extract_pdf E cfg p w) =
     events w @ (if pdf_name p \<and> \<not> has_text (files w) (txt_full_of cfg p) then [Extract p] else [])"
  by (simp add: extract_pdf_step)

lemma extract_fold_events:
  "\<exists>new. events (fold (extract_pdf E cfg) ps w) = events w @ new
     \<and> (\<forall>q. Extract q \<in> set new \<longrightarrow>
            q \<in> set ps \<and> pdf_name q \<and> \<not> has_text (files w) (txt_full_of cfg q))
     \<and> (\<forall>p \<in> set ps. pdf_name p \<and> \<not> has_text (files w) (txt_full_of cfg p) \<longrightarrow>
            (\<exists>q \<in> set ps. txt_full_of cfg q = txt_full_of cfg p \<and> Extract q \<in> set new))"
proof (induction ps arbitrary: w)
  case Nil
  then show ?case by simp
next
  case (Cons x xs)
  let ?w1 = "extract_pdf E cfg x w"
  let ?n1 = "if pdf_name x \<and> \<not> has_text (files w) (txt_full_of cfg x) then [Extract x] else []"
  have e1: "events ?w1 = events w @ ?n1" by (rule extract_pdf_events)
  from Cons.IH[of ?w1] obtain n2 where
    e2: "events (fold (extract_pdf E cfg) xs ?w1) = events ?w1 @ n2"
    and only: "\<forall>q. Extract q \<in> set n2 \<longrightarrow>
            q \<in> set xs \<and> pdf_name q \<and> \<not> has_text (files ?w1) (txt_full_of cfg q)"
    and every: "\<forall>p \<in> set xs. pdf_name p \<and> \<not> has_text (files ?w1) (txt_full_of cfg p) \<longrightarrow>
            (\<exists>q \<in> set xs. txt_full_of cfg q = txt_full_of cfg p \<and> Extract q \<in> set n2)"
    by blast
  have a: "events (fold (extract_pdf E cfg) (x # xs) w) = events w @ (?n1 @ n2)"
    using e1 e2 by simp
  have b: "\<forall>q. Extract q \<in> set (?n1 @ n2) \<longrightarrow>
            q \<in> set (x # xs) \<and> pdf_name q \<and> \<not> has_text (files w) (txt_full_of cfg q)"
  proof (intro allI impI)
    fix q assume q: "Extract q \<in> set (?n1 @ n2)"
    show "q \<in> set (x # xs) \<and> pdf_name q \<and> \<not> has_text (files w) (txt_full_of cfg q)"
    proof (cases "Extract q \<in> set ?n1")
      case True
      then show ?thesis by (auto split: if_splits)
    next
      case False
      with q have "Extract q \<in> set n2" by auto
      with only have 1: "q \<in> set xs" "pdf_name q"
        and 2: "\<not> has_text (files ?w1) (txt_full_of cfg q)" by auto
      have "\<not> has_text (files w) (txt_full_of cfg q)"
      proof
        assume h: "has_text (files w) (txt_full_of cfg q)"
        then have "map_of (files ?w1) (txt_full_of cfg q) = map_of (files w) (txt_full_of cfg q)"
          by (rule extract_pdf_keeps)
        with h have "has_text (files ?w1) (txt_full_of cfg q)" by (simp add: has_text_map_of)
        with 2 show False by simp
      qed
      with 1 show ?thesis by simp
    qed
  qed
  have c: "\<forall>p \<in> set (x # xs). pdf_name p \<and> \<not> has_text (files w) (txt_full_of cfg p) \<longrightarrow>
            (\<exists>q \<in> set (x # xs). txt_full_of cfg q = txt_full_of cfg p \<and> Extract q \<in> set (?n1 @ n2))"
  proof (intro ballI impI)
    fix p assume p: "p \<in> set (x # xs)"
      and h: "pdf_name p \<and> \<not> has_text (files w) (txt_full_of cfg p)"
    show "\<exists>q \<in> set (x # xs). txt_full_of cfg q = txt_full_of cfg p \<and> Extract q \<in> set (?n1 @ n2)"
    proof (cases "pdf_name x \<and> txt_full_of cfg x = txt_full_of cfg p")
      case True
      with h have "Extract x \<in> set (?n1 @ n2)" by simp
      with True show ?thesis by auto
    next
      case False
      then have "p \<noteq> x" using h by auto
      with p have px: "p \<in> set xs" by simp
      have "map_of (files ?w1) (txt_full_of cfg p) = map_of (files w) (txt_full_of cfg p)"
        using False by (intro extract_pdf_other) auto
      with h have "\<not> has_text (files ?w1) (txt_full_of cfg p)" by (simp add: has_text_map_of)
      with every px h obtain q where "q \<in> set xs" "txt_full_of cfg q = txt_full_of cfg p"
        "Extract q \<in> set n2" by blast
      then show ?thesis by auto
    qed
  qed
  from a b c show ?case by blast
qed

text \<open>
  Claim C7. For a file found by the walk of the pdfs root, the pass does nothing unless
  its name ends in \<open>.pdf\<close>; for a PDF it computes the mirrored \<open>.txt\<close> path under the
  pdf_text root, skips the PDF exactly if a file of size greater than zero exists at that
  path, and otherwise calls the text extractor once and writes its result, whatever it
  is, to that path. For the whole pass over any store: a PDF whose text file exists and
  is not empty when the pass starts is not passed to the extractor, and its text file is
  left as it is; a text file that is missing or empty when the pass starts is extracted
  again, from a PDF that is mirrored to it (from the PDF itself when no other PDF shares
  that text path).
\<close>

theorem extraction_is_incremental:
  "extract_pdf E cfg pdf_path w =
     (if \<not> pdf_name pdf_path then w
      else if has_text (files w) (txt_full_of cfg pdf_path) then w
      else w\<lparr>events := events w @ [Extract pdf_path],
             files := write_file (files w) (txt_full_of cfg pdf_path)
                        (extract_text_from_pdf E (files w) pdf_path)\<rparr>)
   \<and> (\<exists>new. events (extract_all_pdfs E cfg w) = events w @ new
        \<and> (\<forall>p \<in> set (walk_files (files w) (pdf_dir cfg)). pdf_name p \<longrightarrow>
             (if has_text (files w) (txt_full_of cfg p)
              then Extract p \<notin> set new
                 \<and> map_of (files (extract_all_pdfs E cfg w)) (txt_full_of cfg p)
                     = map_of (files w) (txt_full_of cfg p)
              else \<exists>q \<in> set (walk_files (files w) (pdf_dir cfg)).
                     txt_full_of cfg q = txt_full_of cfg p \<and> Extract q \<in> set new)))"
proof -
  let ?ps = "walk_files (files w) (pdf_dir cfg)"
  from extract_fold_events[of E cfg ?ps w] obtain new where
    e: "events (fold (extract_pdf E cfg) ?ps w) = events w @ new"
    and only: "\<forall>q. Extract q \<in> set new \<longrightarrow>
            q \<in> set ?ps \<and> pdf_name q \<and> \<not> has_text (files w) (txt_full_of cfg q)"
    and every: "\<forall>p \<in> set ?ps. pdf_name p \<and> \<not> has_text (files w) (txt_full_of cfg p) \<longrightarrow>
            (\<exists>q \<in> set ?ps. txt_full_of cfg q = txt_full_of cfg p \<and> Extract q \<in> set new)"
    by blast
  have "\<forall>p \<in> set ?ps. pdf_name p \<longrightarrow>
             (if has_text (files w) (txt_full_of cfg p)
              then Extract p \<notin> set new
                 \<and> map_of (files (extract_all_pdfs E cfg w)) (txt_full_of cfg p)
                     = map_of (files w) (txt_full_of cfg p)
              else \<exists>q \<in> set ?ps. txt_full_of cfg q = txt_full_of cfg p \<and> Extract q \<in> set new)"
    using only every by (auto simp: extract_all_pdfs_def extract_fold_keeps)
  with e show ?thesis
    by (auto simp: extract_pdf_step extract_all_pdfs_def)
qed

text \<open>
  Of two PDFs, the one whose text file is empty is extracted again; the other is not, and
  its text stays.
\<close>

theorem extraction_is_incremental_witness:
  "events (extract_all_pdfs (fixture []) (site ''https://x/'') extract_store) = [Extract ''data/pdfs/b.pdf'']
   \<and> map_of (files (extract_all_pdfs (fixture []) (site ''https://x/'') extract_store)) ''data/pdf_text/a.txt''
      = Some ''text of a''
   \<and> Extract ''data/pdfs/a.pdf'' \<notin> set (events (extract_all_pdfs (fixture []) (site ''https://x/'') extract_store))"
proof -
  let ?E = "fixture []" and ?c = "site ''https://x/''"
  let ?w = "extract_all_pdfs ?E ?c extract_store"
  have walk: "''data/pdfs/a.pdf'' \<in> set (walk_files (files extract_store) (pdf_dir ?c))" by code_simp
  have pn: "pdf_name ''data/pdfs/a.pdf''" by code_simp
  have ht: "has_text (files extract_store) (txt_full_of ?c ''data/pdfs/a.pdf'')" by code_simp
  have tx: "txt_full_of ?c ''data/pdfs/a.pdf'' = ''data/pdf_text/a.txt''" by code_simp
  have old: "map_of (files extract_store) ''data/pdf_text/a.txt'' = Some ''text of a''" by code_simp
  have ev0: "events extract_store = []" by code_simp
  have ev: "events ?w = [Extract ''data/pdfs/b.pdf'']" by code_simp
  from extraction_is_incremental[of ?E ?c "''data/pdfs/a.pdf''" extract_store]
  obtain new where n: "events ?w = events extract_store @ new"
    and a: "\<forall>p \<in> set (walk_files (files extract_store) (pdf_dir ?c)). pdf_name p \<longrightarrow>
             (if has_text (files extract_store) (txt_full_of ?c p)
              then Extract p \<notin> set new
                 \<and> map_of (files ?w) (txt_full_of ?c p) = map_of (files extract_store) (txt_full_of ?c p)
              else \<exists>q \<in> set (walk_files (files extract_store) (pdf_dir ?c)).
                     txt_full_of ?c q = txt_full_of ?c p \<and> Extract q \<in> set new)"
    by blast
  from a walk pn ht have "Extract ''data/pdfs/a.pdf'' \<notin> set new
      \<and> map_of (files ?w) (txt_full_of ?c ''data/pdfs/a.pdf'')
          = map_of (files extract_store) (txt_full_of ?c ''data/pdfs/a.pdf'')"
    by (auto split: if_splits)
  with n ev0 tx old ev show ?thesis by simp
qed

end
